theory Spec2Isabelle
  imports Complex_Main
begin

section \<open>The hybrid retriever of \<^verbatim>\<open>chat_core/kb/retriever.py\<close>\<close>

text \<open>
  The development embeds the class \<^verbatim>\<open>Retriever\<close>: construction, hybrid ranking
  (vector search, BM25, title boost), the optional cross-encoder rerank, the MMR
  selection and the public \<^verbatim>\<open>search\<close>.

  Conventions of the embedding:
  \<^item> numpy and Python floats are real numbers: rounding, infinities and NaN are not
    modelled, and the casts to \<^verbatim>\<open>float32\<close> are the identity;
  \<^item> an exception is a value \<open>Inl e\<close> of the result type \<open>error + 'a\<close>;
  \<^item> the third-party capabilities (the sentence encoder, the FAISS index, the BM25
    scorer, the cross-encoder) are function-valued fields of the retriever; the
    encoder and the index are total, and all rows have one dimension;
  \<^item> chunk offsets are natural numbers once the negative padding of the index has
    been filtered out.
\<close>

subsection \<open>Errors and Python built-ins\<close>

datatype error = FileNotFoundError | IndexError | ValueError | OtherException

definition bindE :: "error + 'a \<Rightarrow> ('a \<Rightarrow> error + 'b) \<Rightarrow> error + 'b" where
  "bindE m f = (case m of Inl e \<Rightarrow> Inl e | Inr x \<Rightarrow> f x)"

text \<open>A list comprehension whose body may raise: the first exception stops it.\<close>

fun mapE :: "('a \<Rightarrow> error + 'b) \<Rightarrow> 'a list \<Rightarrow> error + 'b list" where
  "mapE f [] = Inr []"
| "mapE f (x # xs) =
     (case f x of Inl e \<Rightarrow> Inl e
      | Inr y \<Rightarrow> (case mapE f xs of Inl e \<Rightarrow> Inl e | Inr ys \<Rightarrow> Inr (y # ys)))"

text \<open>\<^verbatim>\<open>xs[i]\<close> for a non-negative offset: out of range raises \<^verbatim>\<open>IndexError\<close>.\<close>

definition nth_err :: "'a list \<Rightarrow> nat \<Rightarrow> error + 'a" where
  "nth_err xs i = (if i < length xs then Inr (xs ! i) else Inl IndexError)"

text \<open>\<^verbatim>\<open>xs[:n]\<close>: a negative bound counts from the end.\<close>

definition py_take :: "int \<Rightarrow> 'a list \<Rightarrow> 'a list" where
  "py_take n xs = (if 0 \<le> n then take (nat n) xs else take (length xs - nat (- n)) xs)"

text \<open>
  \<^verbatim>\<open>np.argsort(-a)\<close>: the offsets of \<open>a\<close> by descending value. numpy's default sort
  leaves the order of equal values open; the model takes the stable order.
\<close>

definition argsort_desc :: "real list \<Rightarrow> nat list" where
  "argsort_desc a = sort_key (\<lambda>i. - (a ! i)) [0..<length a]"

text \<open>
  Strings are lists of 8-bit characters. \<^verbatim>\<open>str.lower\<close>, \<^verbatim>\<open>str.split\<close> and
  \<^verbatim>\<open>str.strip\<close> are modelled on the ASCII range: the white space of Python below
  128 is the tab, the line feed, the vertical tab, the form feed, the carriage
  return, the four separators 28 to 31 and the blank.
\<close>

definition is_space :: "char \<Rightarrow> bool" where
  "is_space c = ((of_char c :: nat) \<in> {9, 10, 11, 12, 13, 28, 29, 30, 31, 32})"


definition lower_char :: "char \<Rightarrow> char" where
  "lower_char c = (let n = (of_char c :: nat) in
     if 65 \<le> n \<and> n \<le> 90 then char_of (n + 32) else c)"

definition py_lower :: "string \<Rightarrow> string" where
  "py_lower s = map lower_char s"

text \<open>
  Maximal runs of characters that are not separators, left to right; \<open>cur\<close> is the
  run being read.
\<close>

fun tokens_by :: "(char \<Rightarrow> bool) \<Rightarrow> string \<Rightarrow> string \<Rightarrow> string list" where
  "tokens_by sep cur [] = (if cur = [] then [] else [cur])"
| "tokens_by sep cur (c # cs) =
     (if sep c then (if cur = [] then tokens_by sep [] cs else cur # tokens_by sep [] cs)
      else tokens_by sep (cur @ [c]) cs)"

definition py_split :: "string \<Rightarrow> string list" where
  "py_split s = tokens_by is_space [] s"

definition py_strip :: "string \<Rightarrow> string" where
  "py_strip s = rev (dropWhile is_space (rev (dropWhile is_space s)))"

subsection \<open>Vectors\<close>

text \<open>The constant \<^verbatim>\<open>1e-12\<close> of the source.\<close>

definition EPS :: real where
  "EPS = 1 / 10 ^ 12"

definition dot :: "real list \<Rightarrow> real list \<Rightarrow> real" where
  "dot xs ys = sum_list (map2 times xs ys)"

definition l2norm :: "real list \<Rightarrow> real" where
  "l2norm xs = sqrt (sum_list (map (\<lambda>x. x * x) xs))"

text \<open>\<^verbatim>\<open>v / (np.linalg.norm(v) + 1e-12)\<close> on one row.\<close>

definition normalize_row :: "real list \<Rightarrow> real list" where
  "normalize_row v = map (\<lambda>x. x / (l2norm v + EPS)) v"

subsection \<open>Min-max scaling\<close>

definition minmax :: "real list \<Rightarrow> real list" where
  "minmax arr =
     (if arr = [] then arr
      else let mn = Min (set arr); mx = Max (set arr)
           in if mx - mn < EPS then map (\<lambda>_. 0) arr
              else map (\<lambda>x. (x - mn) / (mx - mn + EPS)) arr)"

text \<open>
  Line 171 of \<^verbatim>\<open>_hybrid_rank\<close>:
  \<^verbatim>\<open>fused = alpha_hybrid * v_norm + (1.0 - alpha_hybrid) * b_norm\<close>, element by
  element.
\<close>

definition fuse :: "real \<Rightarrow> real list \<Rightarrow> real list \<Rightarrow> real list" where
  "fuse alpha v_norm b_norm = map2 (\<lambda>v b. alpha * v + (1 - alpha) * b) v_norm b_norm"

subsection \<open>The data of a retriever\<close>

text \<open>
  One entry of \<^verbatim>\<open>meta.json\<close>, as \<^verbatim>\<open>index_kb.py\<close> writes it: \<^verbatim>\<open>doc\<close>, \<^verbatim>\<open>title\<close>,
  \<^verbatim>\<open>chunk_id\<close>, \<^verbatim>\<open>text\<close> and \<^verbatim>\<open>id\<close>. A key that is absent is \<open>None\<close>; so is a null
  title.
\<close>

record chunk =
  m_doc :: "string option"
  m_title :: "string option"
  m_chunk_id :: "int option"
  m_text :: "string option"
  m_id :: "string option"

text \<open>A search result: the chunk with the five scores that \<^verbatim>\<open>search\<close> adds.\<close>

record hit = chunk +
  score_vec_norm :: real
  score_bm25_norm :: real
  score_hybrid :: real
  score_title :: real
  score_total :: real

text \<open>
  The attributes of a \<^verbatim>\<open>Retriever\<close>. The capabilities:
  \<^item> \<open>model\<close> is \<^verbatim>\<open>SentenceTransformer.encode\<close> on one text (a batch is encoded
    row by row);
  \<^item> \<open>index\<close> is \<^verbatim>\<open>faiss.Index.search\<close> for one query row and a count: the rows
    \<^verbatim>\<open>D[0]\<close> and \<^verbatim>\<open>I[0]\<close>, where an offset \<open>-1\<close> pads a short answer;
  \<^item> \<open>bm25\<close> is \<^verbatim>\<open>BM25Okapi.get_scores\<close>, when the scorer was built;
  \<^item> \<open>reranker\<close> is \<^verbatim>\<open>CrossEncoder.predict\<close>, when the model was loaded; it may
    raise.
  The attribute \<^verbatim>\<open>normalize\<close> is the constant \<^verbatim>\<open>True\<close> and is not a field.
\<close>

record retriever =
  top_k :: int
  alpha_hybrid :: real
  vec_k :: int
  bm25_k :: int
  mmr_lambda :: real
  mmr_pool :: int
  rerank_from :: int
  title_boost :: real
  title_k :: int
  use_titles :: bool
  model :: "string \<Rightarrow> real list"
  index :: "real list \<Rightarrow> int \<Rightarrow> real list \<times> int list"
  meta :: "chunk list"
  texts :: "string list"
  titles_list :: "string list"
  titles_vecs :: "real list list option"
  bm25 :: "(string list \<Rightarrow> real list) option"
  reranker :: "((string \<times> string) list \<Rightarrow> error + real list) option"

text \<open>\<^verbatim>\<open>(m.get("title") or "").strip()\<close>\<close>

definition title_of :: "chunk \<Rightarrow> string" where
  "title_of m = py_strip (case m_title m of None \<Rightarrow> [] | Some t \<Rightarrow> t)"

text \<open>\<^verbatim>\<open>m.get("text", "")\<close>\<close>

definition text_of :: "chunk \<Rightarrow> string" where
  "text_of m = (case m_text m of None \<Rightarrow> [] | Some t \<Rightarrow> t)"

subsection \<open>Utilities\<close>

text \<open>\<^verbatim>\<open>_encode_query\<close>: the single row of the one-row matrix.\<close>

definition encode_query :: "retriever \<Rightarrow> string \<Rightarrow> real list" where
  "encode_query r query = normalize_row (model r query)"

subsection \<open>Title similarity\<close>

text \<open>
  \<^verbatim>\<open>_title_sim\<close>. The dictionary it returns is an association list in insertion
  order. \<^verbatim>\<open>np.argpartition(-sims, title_k)[:title_k]\<close> yields the offsets of the
  largest similarities in an order numpy leaves open; the model lists them by
  descending similarity. A negative \<open>title_k\<close> below \<open>- len(sims)\<close> makes numpy
  raise \<^verbatim>\<open>ValueError\<close>.
\<close>

definition title_sim :: "retriever \<Rightarrow> real list \<Rightarrow> error + (string \<times> real) list" where
  "title_sim r q =
     (case titles_vecs r of
        None \<Rightarrow> Inr []
      | Some tv \<Rightarrow>
          if \<not> use_titles r \<or> length (titles_list r) = 0 then Inr []
          else
            let sims = map (\<lambda>row. dot row q) tv in
            if title_k r \<noteq> 0 \<and> title_k r < int (length sims) then
              (if title_k r < - int (length sims) then Inl ValueError
               else
                 let top_idx = py_take (title_k r) (argsort_desc sims);
                     sims_norm = minmax (map (\<lambda>i. sims ! i) top_idx)
                 in mapE (\<lambda>(j, i). bindE (nth_err (titles_list r) i)
                                      (\<lambda>t. Inr (t, sims_norm ! j)))
                      (zip [0..<length top_idx] top_idx))
            else
              let sims_norm = minmax sims
              in mapE (\<lambda>i. bindE (nth_err sims_norm i) (\<lambda>s. Inr (titles_list r ! i, s)))
                   [0..<length (titles_list r)])"

text \<open>\<^verbatim>\<open>dict(pairs).get(k)\<close>: the last pair with the key wins.\<close>

definition dict_get :: "('k \<times> 'v) list \<Rightarrow> 'k \<Rightarrow> 'v option" where
  "dict_get pairs k = map_of (rev pairs) k"

subsection \<open>Hybrid ranking\<close>

type_synonym ranked_row = "nat \<times> real \<times> real \<times> real \<times> real \<times> real"

text \<open>The sixth component of a row, \<^verbatim>\<open>t[5]\<close>.\<close>

definition row_total :: "ranked_row \<Rightarrow> real" where
  "row_total t = (case t of (i, v, b, h, tb, tot) \<Rightarrow> tot)"

text \<open>Lines 144 to 150: the dense candidates \<^verbatim>\<open>zip(vec_ids, vec_scores)\<close>.\<close>

definition vec_pairs :: "retriever \<Rightarrow> real list \<Rightarrow> (nat \<times> real) list" where
  "vec_pairs r q =
     (let vk = min (vec_k r) (int (length (meta r)));
          DI = index r q vk;
          vec_ids = map nat (filter (\<lambda>i. 0 \<le> i) (snd DI));
          vec_scores = take (length vec_ids) (fst DI)
      in zip vec_ids vec_scores)"

text \<open>
  Lines 153 to 159: the sparse candidates, \<^verbatim>\<open>bm25_ids\<close> with their scores. The query
  is tokenized by \<^verbatim>\<open>query.lower().split()\<close>.
\<close>

definition bm25_query_tokens :: "string \<Rightarrow> string list" where
  "bm25_query_tokens query = py_split (py_lower query)"

definition bm25_pairs :: "retriever \<Rightarrow> string \<Rightarrow> (nat \<times> real) list" where
  "bm25_pairs r query =
     (case bm25 r of
        None \<Rightarrow> []
      | Some get_scores \<Rightarrow>
          let bm = get_scores (bm25_query_tokens query);
              top_bm = py_take (min (bm25_k r) (int (length bm))) (argsort_desc bm)
          in map (\<lambda>i. (i, bm ! i)) top_bm)"

text \<open>Line 162: \<^verbatim>\<open>sorted(set(vec_map.keys()).union(bm25_ids))\<close>.\<close>

definition cand_union :: "(nat \<times> real) list \<Rightarrow> (nat \<times> real) list \<Rightarrow> nat list" where
  "cand_union vp bp = sort (remdups (map fst vp @ map fst bp))"

definition cand_list :: "retriever \<Rightarrow> string \<Rightarrow> nat list" where
  "cand_list r query = cand_union (vec_pairs r (encode_query r query)) (bm25_pairs r query)"

text \<open>Lines 167 and 168: \<^verbatim>\<open>d.get(i, 0.0)\<close> for every candidate.\<close>

definition raw_scores :: "(nat \<times> real) list \<Rightarrow> nat list \<Rightarrow> real list" where
  "raw_scores pairs cands =
     map (\<lambda>i. case dict_get pairs i of None \<Rightarrow> 0 | Some s \<Rightarrow> s) cands"

definition v_arr :: "retriever \<Rightarrow> string \<Rightarrow> real list" where
  "v_arr r query = raw_scores (vec_pairs r (encode_query r query)) (cand_list r query)"

definition b_arr :: "retriever \<Rightarrow> string \<Rightarrow> real list" where
  "b_arr r query = raw_scores (bm25_pairs r query) (cand_list r query)"

text \<open>Lines 169 to 171.\<close>

definition v_norm :: "retriever \<Rightarrow> string \<Rightarrow> real list" where
  "v_norm r query = minmax (v_arr r query)"

definition b_norm :: "retriever \<Rightarrow> string \<Rightarrow> real list" where
  "b_norm r query = minmax (b_arr r query)"

definition fused :: "retriever \<Rightarrow> string \<Rightarrow> real list" where
  "fused r query = fuse (alpha_hybrid r) (v_norm r query) (b_norm r query)"

text \<open>
  Lines 174 to 181: the title boosts. \<^verbatim>\<open>self.meta[ci]\<close> is read only when the title
  map is not empty.
\<close>

definition title_boosts :: "retriever \<Rightarrow> real list \<Rightarrow> nat list \<Rightarrow> error + real list" where
  "title_boosts r q cands =
     (if use_titles r \<and> titles_vecs r \<noteq> None then
        bindE (title_sim r q) (\<lambda>tmap.
          if tmap \<noteq> [] then
            mapE (\<lambda>ci. bindE (nth_err (meta r) ci) (\<lambda>m.
                    let t = title_of m in
                    Inr (case (if t \<noteq> [] then dict_get tmap t else None) of
                           Some s \<Rightarrow> s * title_boost r
                         | None \<Rightarrow> 0)))
              cands
          else Inr (map (\<lambda>_. 0) cands))
      else Inr (map (\<lambda>_. 0) cands))"

text \<open>
  \<^verbatim>\<open>_hybrid_rank\<close>. \<^verbatim>\<open>list.sort(key, reverse=True)\<close> keeps the order of rows with
  equal keys, as the insertion sort on the negated key does.
\<close>

definition hybrid_rank :: "retriever \<Rightarrow> string \<Rightarrow> error + ranked_row list" where
  "hybrid_rank r query =
     (if meta r = [] then Inr []
      else if cand_list r query = [] then Inr []
      else
        bindE (title_boosts r (encode_query r query) (cand_list r query)) (\<lambda>tb.
          let total = map2 (+) (fused r query) tb;
              ranked = zip (cand_list r query) (zip (v_norm r query) (zip (b_norm r query)
                         (zip (fused r query) (zip tb total))))
          in Inr (sort_key (\<lambda>t. - row_total t) ranked)))"

subsection \<open>Cross-encoder rerank\<close>

text \<open>
  \<^verbatim>\<open>_rerank\<close>. The pairs are built before the \<^verbatim>\<open>try\<close>; everything raised inside it,
  by \<^verbatim>\<open>predict\<close> or by \<^verbatim>\<open>candidates[int(i)]\<close>, is caught.
\<close>

definition rerank :: "retriever \<Rightarrow> string \<Rightarrow> nat list \<Rightarrow> int \<Rightarrow> error + nat list" where
  "rerank r query candidates limit =
     (case reranker r of
        None \<Rightarrow> Inr (py_take limit candidates)
      | Some predict \<Rightarrow>
          if candidates = [] then Inr (py_take limit candidates)
          else
            bindE (mapE (\<lambda>i. bindE (nth_err (texts r) i) (\<lambda>t. Inr (query, t))) candidates)
              (\<lambda>pairs.
                 case predict pairs of
                   Inl e \<Rightarrow> Inr (py_take limit candidates)
                 | Inr scores \<Rightarrow>
                     (case mapE (nth_err candidates) (py_take limit (argsort_desc scores)) of
                        Inl e \<Rightarrow> Inr (py_take limit candidates)
                      | Inr out \<Rightarrow> Inr out)))"

subsection \<open>MMR selection\<close>

text \<open>
  Lines 232 to 236: the score of the unselected offset \<open>i\<close>. \<open>selected\<close> is the list
  of chunks picked so far and \<open>selected_mask\<close> marks their offsets in the pool.
\<close>

definition mmr_score ::
  "real \<Rightarrow> real list \<Rightarrow> real list list \<Rightarrow> nat list \<Rightarrow> bool list \<Rightarrow> nat \<Rightarrow> real" where
  "mmr_score lambda_mult sim_q sim_dd selected selected_mask i =
     (let div_pen =
            (if selected \<noteq> [] then
               let sel_idx = filter (\<lambda>j. selected_mask ! j) [0..<length selected_mask]
               in Max (set (map (\<lambda>j. sim_dd ! i ! j) sel_idx))
             else 0)
      in lambda_mult * (sim_q ! i) - (1 - lambda_mult) * div_pen)"

text \<open>Lines 228 to 238: the inner loop, from \<^verbatim>\<open>best_i, best_score = -1, -1e9\<close>.\<close>

definition mmr_best ::
  "real \<Rightarrow> real list \<Rightarrow> real list list \<Rightarrow> nat list \<Rightarrow> bool list \<Rightarrow> nat \<Rightarrow> int \<times> real" where
  "mmr_best lambda_mult sim_q sim_dd selected selected_mask n =
     fold (\<lambda>i (best_i, best_score).
             if selected_mask ! i then (best_i, best_score)
             else let mmr = mmr_score lambda_mult sim_q sim_dd selected selected_mask i
                  in if mmr > best_score then (int i, mmr) else (best_i, best_score))
          [0..<n] (- 1, - (10 ^ 9))"

text \<open>Lines 227 to 242: the outer loop, \<open>m\<close> rounds from a state.\<close>

fun mmr_loop ::
  "real \<Rightarrow> real list \<Rightarrow> real list list \<Rightarrow> nat list \<Rightarrow> nat \<Rightarrow> nat list \<times> bool list
     \<Rightarrow> nat list \<times> bool list" where
  "mmr_loop lambda_mult sim_q sim_dd candidate_ids 0 st = st"
| "mmr_loop lambda_mult sim_q sim_dd candidate_ids (Suc m) (selected, selected_mask) =
     (let best_i = fst (mmr_best lambda_mult sim_q sim_dd selected selected_mask
                          (length candidate_ids))
      in if best_i = - 1 then (selected, selected_mask)
         else mmr_loop lambda_mult sim_q sim_dd candidate_ids m
                (selected @ [candidate_ids ! nat best_i],
                 selected_mask[nat best_i := True]))"

text \<open>Lines 215 to 222: the normalized candidate rows and the two similarity tables.\<close>

definition cand_vecs :: "retriever \<Rightarrow> string list \<Rightarrow> real list list" where
  "cand_vecs r cand_texts = map (\<lambda>t. normalize_row (model r t)) cand_texts"

definition sim_q :: "retriever \<Rightarrow> real list \<Rightarrow> string list \<Rightarrow> real list" where
  "sim_q r qv cand_texts = map (\<lambda>v. dot v qv) (cand_vecs r cand_texts)"

definition sim_dd :: "retriever \<Rightarrow> string list \<Rightarrow> real list list" where
  "sim_dd r cand_texts =
     map (\<lambda>v. map (\<lambda>w. dot v w) (cand_vecs r cand_texts)) (cand_vecs r cand_texts)"

text \<open>\<^verbatim>\<open>_mmr\<close>\<close>

definition mmr :: "retriever \<Rightarrow> real list \<Rightarrow> nat list \<Rightarrow> int \<Rightarrow> real \<Rightarrow> error + nat list" where
  "mmr r qv candidate_ids k lambda_mult =
     (if candidate_ids = [] then Inr []
      else
        let k' = max 1 (min k (int (length candidate_ids))) in
        bindE (mapE (nth_err (texts r)) candidate_ids) (\<lambda>cand_texts.
          Inr (fst (mmr_loop lambda_mult (sim_q r qv cand_texts) (sim_dd r cand_texts)
                      candidate_ids (nat k')
                      ([], replicate (length candidate_ids) False)))))"

subsection \<open>Public search\<close>

text \<open>Lines 270 to 277: one result, with the scores of the chunk's row or zeros.\<close>

definition build_hit :: "ranked_row list \<Rightarrow> chunk \<Rightarrow> nat \<Rightarrow> hit" where
  "build_hit ranked m idx =
     (case dict_get ranked idx of
        Some (v, b, h, t, tot) \<Rightarrow>
          chunk.extend m \<lparr>score_vec_norm = v, score_bm25_norm = b, score_hybrid = h,
                          score_title = t, score_total = tot\<rparr>
      | None \<Rightarrow>
          chunk.extend m \<lparr>score_vec_norm = 0, score_bm25_norm = 0, score_hybrid = 0,
                          score_title = 0, score_total = 0\<rparr>)"

text \<open>\<^verbatim>\<open>search\<close>; the keyword \<^verbatim>\<open>top_k\<close> is optional.\<close>

definition search :: "retriever \<Rightarrow> string \<Rightarrow> int option \<Rightarrow> error + hit list" where
  "search r query top_k_arg =
     (let k_final = (case top_k_arg of Some k \<Rightarrow> k | None \<Rightarrow> top_k r) in
      bindE (hybrid_rank r query) (\<lambda>ranked.
        if ranked = [] then Inr []
        else
          let pool = map fst (py_take (max (mmr_pool r) (rerank_from r)) ranked) in
          bindE (if reranker r \<noteq> None \<and> pool \<noteq> []
                 then rerank r query pool (int (length pool)) else Inr pool) (\<lambda>pool'.
            let qv = encode_query r query in
            bindE (mmr r qv pool' k_final (mmr_lambda r)) (\<lambda>final_ids.
              mapE (\<lambda>idx. bindE (nth_err (meta r) idx) (\<lambda>m. Inr (build_hit ranked m idx)))
                final_ids))))"

subsection \<open>Construction\<close>








subsection \<open>The tokenization of the specification\<close>


subsection \<open>The greedy selection of the specification\<close>

text \<open>
  Section 4.5 of the specification: the score of candidate \<open>i\<close> against the set \<open>S\<close>
  of offsets already selected is
  \<^verbatim>\<open>lambda * sim(query, i) - (1 - lambda) * max over j in S of sim(i, j)\<close>, the
  maximum being \<open>0\<close> while \<open>S\<close> is empty.
\<close>

definition spec_mmr_score :: "real \<Rightarrow> real list \<Rightarrow> real list list \<Rightarrow> nat set \<Rightarrow> nat \<Rightarrow> real" where
  "spec_mmr_score lam sq sdd S i =
     lam * (sq ! i) - (1 - lam) * (if S = {} then 0 else Max ((\<lambda>j. sdd ! i ! j) ` S))"

text \<open>
  \<open>spec_greedy lam sq sdd n chosen picks\<close>: after \<open>chosen\<close>, each offset of \<open>picks\<close> in
  turn is an unselected candidate of the pool of size \<open>n\<close> with the highest score
  against everything selected before it.
\<close>

fun spec_greedy ::
  "real \<Rightarrow> real list \<Rightarrow> real list list \<Rightarrow> nat \<Rightarrow> nat list \<Rightarrow> nat list \<Rightarrow> bool" where
  "spec_greedy lam sq sdd n chosen [] = True"
| "spec_greedy lam sq sdd n chosen (i # rest) =
     (i < n \<and> i \<notin> set chosen \<and>
      (\<forall>j\<in>set [0..<n]. j \<notin> set chosen \<longrightarrow>
         spec_mmr_score lam sq sdd (set chosen) j \<le> spec_mmr_score lam sq sdd (set chosen) i) \<and>
      spec_greedy lam sq sdd n (chosen @ [i]) rest)"

subsection \<open>Contracts of the configuration and of the capabilities\<close>

text \<open>
  What \<^verbatim>\<open>search\<close> relies on for a query, beyond its own code:
  \<^item> \<open>mmr_lambda\<close> is a weight between \<open>0\<close> and \<open>1\<close>;
  \<^item> the index and the lexical scorer are aligned with the metadata: every
    candidate is the offset of a chunk and of its text;
  \<^item> the title table, when there is one, has one row per listed title, and
    \<open>title_k\<close> is not below minus the number of rows (numpy rejects it otherwise);
  \<^item> \<^verbatim>\<open>predict\<close>, when it returns, returns one score per pair.
\<close>

definition contracts :: "retriever \<Rightarrow> string \<Rightarrow> bool" where
  "contracts r query =
     (0 \<le> mmr_lambda r \<and> mmr_lambda r \<le> 1 \<and>
      (\<forall>i\<in>set (cand_list r query). i < length (meta r) \<and> i < length (texts r)) \<and>
      (case titles_vecs r of
         None \<Rightarrow> True
       | Some tv \<Rightarrow> length tv = length (titles_list r) \<and> - int (length tv) \<le> title_k r) \<and>
      (case reranker r of
         None \<Rightarrow> True
       | Some predict \<Rightarrow>
           \<forall>pairs scores. predict pairs = Inr scores \<longrightarrow> length scores = length pairs))"

text \<open>The sum of the squares of a row, the square of its \<^verbatim>\<open>np.linalg.norm\<close>.\<close>

definition sumsq :: "real list \<Rightarrow> real" where
  "sumsq xs = sum_list (map (\<lambda>x. x * x) xs)"

subsection \<open>A three-chunk knowledge base\<close>

text \<open>
  Two chunks of a document titled Alpha and one of a document titled Beta, an
  encoder with two directions, an index that always answers with the three chunks
  and a lexical scorer that only knows the word beta.
\<close>

definition demo_meta :: "chunk list" where
  "demo_meta =
     [\<lparr>m_doc = Some ''a.md'', m_title = Some ''Alpha'', m_chunk_id = Some 0,
       m_text = Some ''alpha one'', m_id = Some ''c0''\<rparr>,
      \<lparr>m_doc = Some ''a.md'', m_title = Some ''Alpha'', m_chunk_id = Some 1,
       m_text = Some ''alpha two'', m_id = Some ''c1''\<rparr>,
      \<lparr>m_doc = Some ''b.md'', m_title = Some ''Beta'', m_chunk_id = Some 0,
       m_text = Some ''beta three'', m_id = Some ''c2''\<rparr>]"

definition demo_encode :: "string \<Rightarrow> real list" where
  "demo_encode s = (if s = ''beta three'' then [0, 1] else [1, 0])"

definition demo_index :: "real list \<Rightarrow> int \<Rightarrow> real list \<times> int list" where
  "demo_index q k = (take (nat k) [1, 1, 0], take (nat k) [0, 1, 2])"

definition demo_bm25 :: "string list \<Rightarrow> real list" where
  "demo_bm25 toks = (if ''beta'' \<in> set toks then [0, 0, 1] else [0, 0, 0])"

definition demo :: retriever where
  "demo = \<lparr>top_k = 4, alpha_hybrid = 6 / 10, vec_k = 50, bm25_k = 50, mmr_lambda = 6 / 10,
            mmr_pool = 15, rerank_from = 20, title_boost = 25 / 100, title_k = 64,
            use_titles = False, model = demo_encode, index = demo_index, meta = demo_meta,
            texts = map text_of demo_meta, titles_list = [], titles_vecs = None,
            bm25 = Some demo_bm25, reranker = None\<rparr>"





text \<open>The same knowledge base with a working pool of two candidates.\<close>

definition demo_capped :: retriever where
  "demo_capped = demo\<lparr>mmr_pool := 1, rerank_from := 2\<rparr>"


section \<open>Properties\<close>

subsection \<open>Errors, slices and comprehensions\<close>

lemma bindE_simps [simp]: "bindE (Inl e) f = Inl e" "bindE (Inr x) f = f x"
  by (simp_all add: bindE_def)

lemma py_take_all: "py_take (int (length xs)) xs = xs"
  by (simp add: py_take_def)

lemma mapE_nth_err_cases:
  "(\<exists>ys. mapE (nth_err xs) is = Inr ys \<and> ys = map ((!) xs) is \<and> (\<forall>i\<in>set is. i < length xs)) \<or>
   (mapE (nth_err xs) is = Inl IndexError \<and> (\<exists>i\<in>set is. \<not> i < length xs))"
  by (induction "is") (auto simp: nth_err_def)

lemma mapE_pairs:
  "mapE (\<lambda>i. bindE (nth_err xs i) (\<lambda>t. Inr (q, t))) is =
     (case mapE (nth_err xs) is of Inl e \<Rightarrow> Inl e | Inr ts \<Rightarrow> Inr (map (Pair q) ts))"
  by (induction "is") (auto simp: bindE_def split: sum.splits)



subsection \<open>Evaluating the three-chunk knowledge base\<close>

lemmas demo_simps =
  cand_list_def cand_union_def vec_pairs_def bm25_pairs_def demo_def demo_index_def
  demo_meta_def demo_bm25_def bm25_query_tokens_def py_split_def py_lower_def lower_char_def
  is_space_def py_take_def argsort_desc_def encode_query_def demo_encode_def Let_def
  b_arr_def v_arr_def raw_scores_def dict_get_def normalize_row_def l2norm_def

lemma demo_cand_list: "cand_list demo ''beta'' = [0, 1, 2]"
  by (simp add: demo_simps)

lemma demo_b_arr_alpha: "b_arr demo ''alpha'' = [0, 0, 0]"
  by (simp add: demo_simps)

subsection \<open>Min-max scaling and fusion\<close>

lemma length_minmax: "length (minmax arr) = length arr"
  by (simp add: minmax_def Let_def)

lemma minmax_flat:
  assumes "\<forall>x\<in>set arr. \<forall>y\<in>set arr. x = y"
  shows "minmax arr = map (\<lambda>_. 0) arr"
proof (cases "arr = []")
  case True
  then show ?thesis by (simp add: minmax_def)
next
  case False
  then have "Max (set arr) \<in> set arr" and "Min (set arr) \<in> set arr"
    by simp_all
  with assms have "Max (set arr) = Min (set arr)" by blast
  then show ?thesis using False by (simp add: minmax_def EPS_def)
qed

lemma length_raw_scores: "length (raw_scores pairs cands) = length cands"
  by (simp add: raw_scores_def)

lemma length_v_norm: "length (v_norm r query) = length (cand_list r query)"
  by (simp add: v_norm_def v_arr_def length_minmax length_raw_scores)

lemma length_b_norm: "length (b_norm r query) = length (cand_list r query)"
  by (simp add: b_norm_def b_arr_def length_minmax length_raw_scores)

lemma length_fused: "length (fused r query) = length (cand_list r query)"
  by (simp add: fused_def fuse_def length_v_norm length_b_norm)

lemma fuse_flat:
  assumes "length v = length b"
  shows "fuse alpha v (map (\<lambda>_. 0) b) = map (\<lambda>x. alpha * x) v"
  using assms by (auto simp: fuse_def intro!: nth_equalityI)

lemma hybrid_rank_rows:
  assumes "hybrid_rank r query = Inr ranked" and "(i, v, b, h, t, tot) \<in> set ranked"
  shows "\<exists>tb n. title_boosts r (encode_query r query) (cand_list r query) = Inr tb \<and>
           n < length (cand_list r query) \<and> n < length tb \<and>
           i = cand_list r query ! n \<and> v = v_norm r query ! n \<and> b = b_norm r query ! n \<and>
           h = fused r query ! n \<and> t = tb ! n \<and> tot = fused r query ! n + tb ! n"
proof -
  from assms obtain tb where tb: "title_boosts r (encode_query r query) (cand_list r query) = Inr tb"
    and mem: "(i, v, b, h, t, tot) \<in> set (zip (cand_list r query) (zip (v_norm r query)
                (zip (b_norm r query) (zip (fused r query)
                  (zip tb (map2 (+) (fused r query) tb))))))"
    by (auto simp: hybrid_rank_def Let_def bindE_def split: if_splits sum.splits)
  from mem obtain n where "n < length (cand_list r query)" "n < length tb"
    "i = cand_list r query ! n" "v = v_norm r query ! n" "b = b_norm r query ! n"
    "h = fused r query ! n" "t = tb ! n" "tot = fused r query ! n + tb ! n"
    by (auto simp: in_set_zip length_v_norm length_b_norm length_fused)
  with tb show ?thesis by blast
qed

lemma bm25_absent: "bm25 r = None \<Longrightarrow> x \<in> set (b_arr r query) \<Longrightarrow> x = 0"
  by (auto simp: b_arr_def bm25_pairs_def raw_scores_def dict_get_def)

text \<open>
  C3. When all raw lexical scores of the candidate union are equal, and in
  particular when no lexical scorer was built, the normalized lexical score of
  every candidate is \<open>0\<close> and its fused score is \<open>alpha_hybrid\<close> times its normalized
  dense score, in the arrays of \<^verbatim>\<open>_hybrid_rank\<close> and in every row it returns.
\<close>

theorem degenerate_lexical_axis:
  assumes "bm25 r = None \<or> (\<forall>x\<in>set (b_arr r query). \<forall>y\<in>set (b_arr r query). x = y)"
  shows "b_norm r query = map (\<lambda>_. 0) (cand_list r query) \<and>
         fused r query = map (\<lambda>v. alpha_hybrid r * v) (v_norm r query) \<and>
         (\<forall>ranked i v b h tb tot. hybrid_rank r query = Inr ranked \<longrightarrow>
            (i, v, b, h, tb, tot) \<in> set ranked \<longrightarrow> b = 0 \<and> h = alpha_hybrid r * v)"
proof -
  from assms have flat: "\<forall>x\<in>set (b_arr r query). \<forall>y\<in>set (b_arr r query). x = y"
    using bm25_absent by blast
  have bz: "b_norm r query = map (\<lambda>_. 0) (b_arr r query)"
    unfolding b_norm_def by (rule minmax_flat [OF flat])
  have b0: "b_norm r query = map (\<lambda>_. 0) (cand_list r query)"
    by (simp add: bz b_arr_def raw_scores_def)
  have len: "length (v_norm r query) = length (cand_list r query)"
    by (rule length_v_norm)
  have f: "fused r query = map (\<lambda>v. alpha_hybrid r * v) (v_norm r query)"
    unfolding fused_def b0 by (rule fuse_flat [OF len])
  have rows: "b = 0 \<and> h = alpha_hybrid r * v"
    if "hybrid_rank r query = Inr ranked" and "(i, v, b, h, tb, tot) \<in> set ranked"
    for ranked i v b h tb tot
  proof -
    from hybrid_rank_rows [OF that] obtain n where n: "n < length (cand_list r query)"
      and v: "v = v_norm r query ! n" and b: "b = b_norm r query ! n"
      and h: "h = fused r query ! n"
      by auto
    from n have "b = 0" by (simp add: b b0)
    moreover from n have "h = alpha_hybrid r * v" by (simp add: h v f len)
    ultimately show ?thesis by simp
  qed
  from b0 f rows show ?thesis by blast
qed

theorem degenerate_lexical_axis_witness:
  "(bm25 demo = None \<or> (\<forall>x\<in>set (b_arr demo ''alpha''). \<forall>y\<in>set (b_arr demo ''alpha''). x = y)) \<and>
   b_norm demo ''alpha'' = map (\<lambda>_. 0) (cand_list demo ''alpha'') \<and>
   fused demo ''alpha'' = map (\<lambda>v. alpha_hybrid demo * v) (v_norm demo ''alpha'')"
proof -
  have h: "bm25 demo = None \<or>
           (\<forall>x\<in>set (b_arr demo ''alpha''). \<forall>y\<in>set (b_arr demo ''alpha''). x = y)"
    by (simp add: demo_b_arr_alpha)
  from degenerate_lexical_axis [OF h] h show ?thesis by blast
qed

subsection \<open>Construction\<close>



subsection \<open>Empty corpus and empty candidate sets\<close>

lemma cand_union_Nil: "cand_union vp bp = [] \<longleftrightarrow> vp = [] \<and> bp = []"
proof -
  have "cand_union vp bp = [] \<longleftrightarrow> set (cand_union vp bp) = {}" by simp
  also have "\<dots> \<longleftrightarrow> vp = [] \<and> bp = []" by (simp add: cand_union_def)
  finally show ?thesis .
qed

text \<open>
  C8. \<^verbatim>\<open>search\<close> returns the empty list, and raises nothing, on a corpus without
  chunks, and also when the dense and the sparse candidate sets are both empty.
\<close>

theorem empty_corpus_or_candidates:
  assumes "meta r = [] \<or>
           (set (map fst (vec_pairs r (encode_query r query))) = {} \<and>
            set (map fst (bm25_pairs r query)) = {})"
  shows "search r query k = Inr []"
  using assms
  by (auto simp: search_def hybrid_rank_def bindE_def cand_list_def cand_union_Nil)

theorem empty_corpus_or_candidates_witness:
  "(meta (demo\<lparr>meta := []\<rparr>) = [] \<or>
    (set (map fst (vec_pairs (demo\<lparr>meta := []\<rparr>) (encode_query (demo\<lparr>meta := []\<rparr>) ''beta''))) = {} \<and>
     set (map fst (bm25_pairs (demo\<lparr>meta := []\<rparr>) ''beta'')) = {})) \<and>
   search (demo\<lparr>meta := []\<rparr>) ''beta'' (Some 3) = Inr []"
  using empty_corpus_or_candidates [of "demo\<lparr>meta := []\<rparr>" "''beta''" "Some 3"]
  by simp

subsection \<open>Title table of the wrong shape\<close>











subsection \<open>Tokenization of the query on the sparse path\<close>











subsection \<open>Similarities of normalized rows\<close>

lemma sumsq_simps [simp]: "sumsq [] = 0" "sumsq (x # xs) = x * x + sumsq xs"
  by (simp_all add: sumsq_def)

lemma sumsq_nonneg: "0 \<le> sumsq xs"
  by (induction xs) simp_all

lemma dot_simps [simp]:
  "dot [] ys = 0" "dot xs [] = 0" "dot (x # xs) (y # ys) = x * y + dot xs ys"
  by (simp_all add: dot_def)

lemma two_dim_step:
  fixes x y a A B :: real
  assumes "a\<^sup>2 \<le> A * B" and "0 \<le> A" and "0 \<le> B"
  shows "(x * y + a)\<^sup>2 \<le> (x * x + A) * (y * y + B)"
proof -
  have "\<bar>a\<bar> \<le> sqrt A * sqrt B"
    using assms by (metis real_sqrt_abs real_sqrt_le_iff real_sqrt_mult)
  then have "\<bar>x * y * a\<bar> \<le> \<bar>x\<bar> * \<bar>y\<bar> * (sqrt A * sqrt B)"
    by (simp add: abs_mult mult_left_mono)
  moreover have "0 \<le> (\<bar>x\<bar> * sqrt B - \<bar>y\<bar> * sqrt A)\<^sup>2" by simp
  then have "2 * (\<bar>x\<bar> * \<bar>y\<bar> * (sqrt A * sqrt B)) \<le> x * x * B + y * y * A"
    using assms(2,3) by (simp add: power2_eq_square algebra_simps)
  ultimately have "2 * (x * y * a) \<le> x * x * B + y * y * A" by linarith
  with assms(1) show ?thesis
    by (simp add: power2_eq_square algebra_simps)
qed

lemma cauchy_schwarz_list: "(dot xs ys)\<^sup>2 \<le> sumsq xs * sumsq ys"
proof (induction xs arbitrary: ys)
  case Nil
  then show ?case by simp
next
  case (Cons x xs)
  show ?case
  proof (cases ys)
    case Nil
    then show ?thesis by simp
  next
    case (Cons y ys')
    then show ?thesis
      using two_dim_step [OF Cons.IH [of ys'] sumsq_nonneg sumsq_nonneg, of x y] by simp
  qed
qed

lemma EPS_pos: "0 < EPS"
  by (simp add: EPS_def)

lemma l2norm_sumsq: "l2norm xs = sqrt (sumsq xs)"
  by (simp add: l2norm_def sumsq_def)

lemma sumsq_scale: "sumsq (map (\<lambda>x. x / c) v) = sumsq v / (c * c)"
  by (induction v) (simp_all add: add_divide_distrib)

lemma sumsq_normalize_row: "sumsq (normalize_row v) \<le> 1"
proof -
  let ?n = "l2norm v"
  have n0: "0 \<le> ?n" by (simp add: l2norm_sumsq sumsq_nonneg)
  have sq: "sumsq v = ?n * ?n" by (simp add: l2norm_sumsq sumsq_nonneg)
  have "?n * ?n \<le> (?n + EPS) * (?n + EPS)"
    using n0 EPS_pos by (intro mult_mono) simp_all
  moreover have "0 < (?n + EPS) * (?n + EPS)" using n0 EPS_pos by simp
  ultimately show ?thesis
    by (simp add: normalize_row_def sumsq_scale sq)
qed

lemma dot_unit_bound:
  assumes "sumsq xs \<le> 1" and "sumsq ys \<le> 1"
  shows "\<bar>dot xs ys\<bar> \<le> 1"
proof -
  have "sumsq xs * sumsq ys \<le> 1 * 1"
    using assms sumsq_nonneg by (intro mult_mono) simp_all
  with cauchy_schwarz_list [of xs ys] have "(dot xs ys)\<^sup>2 \<le> 1\<^sup>2" by simp
  then have "\<bar>dot xs ys\<bar> \<le> \<bar>1 :: real\<bar>" by (rule abs_le_square_iff [THEN iffD2])
  then show ?thesis by simp
qed

subsection \<open>The inner loop of the selection\<close>

lemma mmr_best_Suc:
  "mmr_best lam sq sdd sel msk (Suc n) =
     (let (best_i, best_score) = mmr_best lam sq sdd sel msk n in
      if msk ! n then (best_i, best_score)
      else if mmr_score lam sq sdd sel msk n > best_score
           then (int n, mmr_score lam sq sdd sel msk n) else (best_i, best_score))"
  by (simp add: mmr_best_def Let_def split: prod.splits)

lemma mmr_best_0: "mmr_best lam sq sdd sel msk 0 = (- 1, - (10 ^ 9))"
  by (simp add: mmr_best_def)

lemma mmr_best_inv:
  "(fst (mmr_best lam sq sdd sel msk n) = - 1 \<and>
    snd (mmr_best lam sq sdd sel msk n) = - (10 ^ 9) \<and>
    (\<forall>j<n. \<not> msk ! j \<longrightarrow> mmr_score lam sq sdd sel msk j \<le> - (10 ^ 9))) \<or>
   (0 \<le> fst (mmr_best lam sq sdd sel msk n) \<and>
    nat (fst (mmr_best lam sq sdd sel msk n)) < n \<and>
    \<not> msk ! nat (fst (mmr_best lam sq sdd sel msk n)) \<and>
    snd (mmr_best lam sq sdd sel msk n) =
      mmr_score lam sq sdd sel msk (nat (fst (mmr_best lam sq sdd sel msk n))) \<and>
    - (10 ^ 9) < snd (mmr_best lam sq sdd sel msk n) \<and>
    (\<forall>j<n. \<not> msk ! j \<longrightarrow>
       mmr_score lam sq sdd sel msk j \<le> snd (mmr_best lam sq sdd sel msk n)))"
proof (induction n)
  case 0
  show ?case by (simp add: mmr_best_0)
next
  case (Suc n)
  obtain bi bs where b: "mmr_best lam sq sdd sel msk n = (bi, bs)"
    by (cases "mmr_best lam sq sdd sel msk n")
  show ?case
  proof (cases "msk ! n")
    case True
    with Suc b show ?thesis
      by (auto simp: mmr_best_Suc less_Suc_eq)
  next
    case False
    show ?thesis
    proof (cases "mmr_score lam sq sdd sel msk n > bs")
      case True
      with Suc b False show ?thesis
        by (auto simp: mmr_best_Suc less_Suc_eq)
    next
      case gt: False
      with Suc b False show ?thesis
        by (auto simp: mmr_best_Suc less_Suc_eq)
    qed
  qed
qed


lemma mmr_score_spec:
  assumes "length msk = n" and "\<forall>j<n. msk ! j \<longleftrightarrow> j \<in> set picks" and "set picks \<subseteq> {..<n}"
    and "sel = [] \<longleftrightarrow> picks = []"
  shows "mmr_score lam sq sdd sel msk i = spec_mmr_score lam sq sdd (set picks) i"
proof -
  have "set (filter (\<lambda>j. msk ! j) [0..<length msk]) = set picks"
    using assms(1,2,3) by auto
  then have "set (map (\<lambda>j. sdd ! i ! j) (filter (\<lambda>j. msk ! j) [0..<length msk]))
               = (\<lambda>j. sdd ! i ! j) ` set picks"
    by (simp only: set_map)
  with assms(4) show ?thesis
    by (simp add: mmr_score_def spec_mmr_score_def Let_def)
qed

lemma spec_mmr_score_lower:
  assumes "0 \<le> lam" and "lam \<le> 1" and "i < n" and "S \<subseteq> {..<n}"
    and "\<forall>i<n. \<bar>sq ! i\<bar> \<le> 1" and "\<forall>i<n. \<forall>j<n. \<bar>sdd ! i ! j\<bar> \<le> 1"
  shows "- 1 \<le> spec_mmr_score lam sq sdd S i"
proof -
  define pen where "pen = (if S = {} then 0 else Max ((\<lambda>j. sdd ! i ! j) ` S))"
  have fin: "finite S" using assms(4) by (rule finite_subset) simp
  have "pen \<le> 1"
  proof (cases "S = {}")
    case True
    then show ?thesis by (simp add: pen_def)
  next
    case False
    have "\<forall>j\<in>S. sdd ! i ! j \<le> 1"
    proof
      fix j assume "j \<in> S"
      with assms(4) have "j < n" by auto
      with assms(3,6) have "\<bar>sdd ! i ! j\<bar> \<le> 1" by blast
      then show "sdd ! i ! j \<le> 1" by simp
    qed
    with False fin show ?thesis by (simp add: pen_def)
  qed
  with assms(2) have a: "(1 - lam) * pen \<le> (1 - lam) * 1"
    by (intro mult_left_mono) simp_all
  from assms(3,5) have "- 1 \<le> sq ! i" by (simp add: abs_le_iff)
  with assms(1) have b: "lam * (- 1) \<le> lam * (sq ! i)"
    by (intro mult_left_mono) simp_all
  from a b show ?thesis
    unfolding spec_mmr_score_def pen_def [symmetric] by simp
qed


subsection \<open>The outer loop of the selection\<close>

lemma unselected_exists:
  assumes "set chosen \<subseteq> {..<n}" and "length chosen < n"
  shows "\<exists>j<n. j \<notin> set chosen"
proof (rule ccontr)
  assume "\<not> (\<exists>j<n. j \<notin> set chosen)"
  then have "{..<n} \<subseteq> set chosen" by auto
  then have "card {..<n} \<le> card (set chosen)" by (intro card_mono) simp_all
  also have "\<dots> \<le> length chosen" by (rule card_length)
  finally show False using assms(2) by simp
qed

lemma mmr_loop_greedy:
  assumes lam: "0 \<le> lam" "lam \<le> 1"
    and sq: "\<forall>i<n. \<bar>sq ! i\<bar> \<le> 1" and sdd: "\<forall>i<n. \<forall>j<n. \<bar>sdd ! i ! j\<bar> \<le> 1"
    and n: "n = length cands"
    and "length msk = n" and "\<forall>j<n. msk ! j \<longleftrightarrow> j \<in> set chosen"
    and "set chosen \<subseteq> {..<n}" and "sel = map ((!) cands) chosen"
    and "length chosen + m \<le> n"
  shows "\<exists>picks. fst (mmr_loop lam sq sdd cands m (sel, msk)) = map ((!) cands) (chosen @ picks) \<and>
           length picks = m \<and> spec_greedy lam sq sdd n chosen picks"
  using assms(6-)
proof (induction m arbitrary: sel msk chosen)
  case 0
  then show ?case by simp
next
  case (Suc m)
  let ?b = "mmr_best lam sq sdd sel msk n"
  have sc: "mmr_score lam sq sdd sel msk i = spec_mmr_score lam sq sdd (set chosen) i" for i
    using Suc.prems by (intro mmr_score_spec [where n = n]) simp_all
  from Suc.prems have "length chosen < n" by simp
  with unselected_exists [OF Suc.prems(3)] obtain j where j: "j < n" "j \<notin> set chosen"
    by blast
  with Suc.prems(2) have mj: "\<not> msk ! j" by simp
  have "- 1 \<le> spec_mmr_score lam sq sdd (set chosen) j"
    by (rule spec_mmr_score_lower [OF lam j(1) Suc.prems(3) sq sdd])
  then have "\<not> mmr_score lam sq sdd sel msk j \<le> - (10 ^ 9)" by (simp add: sc)
  with mmr_best_inv [of lam sq sdd sel msk n] j(1) mj
  have b: "0 \<le> fst ?b" "nat (fst ?b) < n" "\<not> msk ! nat (fst ?b)"
    "snd ?b = mmr_score lam sq sdd sel msk (nat (fst ?b))"
    "\<forall>j<n. \<not> msk ! j \<longrightarrow> mmr_score lam sq sdd sel msk j \<le> snd ?b"
    by blast+
  define bi where "bi = nat (fst ?b)"
  from b(2,3) Suc.prems(2) have bi: "bi < n" "bi \<notin> set chosen" by (simp_all add: bi_def)
  have best: "\<forall>j\<in>set [0..<n]. j \<notin> set chosen \<longrightarrow>
      spec_mmr_score lam sq sdd (set chosen) j \<le> spec_mmr_score lam sq sdd (set chosen) bi"
    using b(4,5) Suc.prems(2) by (simp add: sc bi_def)
  have unfold: "mmr_loop lam sq sdd cands (Suc m) (sel, msk) =
      mmr_loop lam sq sdd cands m (sel @ [cands ! bi], msk[bi := True])"
    using b(1) by (simp add: n [symmetric] Let_def bi_def)
  have "\<exists>picks. fst (mmr_loop lam sq sdd cands m (sel @ [cands ! bi], msk[bi := True])) =
            map ((!) cands) ((chosen @ [bi]) @ picks) \<and>
          length picks = m \<and> spec_greedy lam sq sdd n (chosen @ [bi]) picks"
  proof (rule Suc.IH)
    show "length (msk[bi := True]) = n" using Suc.prems(1) by simp
    show "\<forall>j<n. msk[bi := True] ! j \<longleftrightarrow> j \<in> set (chosen @ [bi])"
      using Suc.prems(1,2) bi(1) by (auto simp: nth_list_update)
    show "set (chosen @ [bi]) \<subseteq> {..<n}" using Suc.prems(3) bi(1) by simp
    show "sel @ [cands ! bi] = map ((!) cands) (chosen @ [bi])" using Suc.prems(4) by simp
    show "length (chosen @ [bi]) + m \<le> n" using Suc.prems(5) by simp
  qed
  then obtain picks where picks:
    "fst (mmr_loop lam sq sdd cands m (sel @ [cands ! bi], msk[bi := True])) =
       map ((!) cands) ((chosen @ [bi]) @ picks)"
    "length picks = m" "spec_greedy lam sq sdd n (chosen @ [bi]) picks"
    by blast
  have "fst (mmr_loop lam sq sdd cands (Suc m) (sel, msk)) = map ((!) cands) (chosen @ bi # picks)"
    using picks(1) by (simp only: unfold) simp
  moreover have "length (bi # picks) = Suc m" using picks(2) by simp
  moreover have "spec_greedy lam sq sdd n chosen (bi # picks)"
    using bi best picks(3) by simp
  ultimately show ?case by blast
qed


lemma mmr_loop_length:
  "length (fst (mmr_loop lam sq sdd cands m (sel, msk))) \<le> length sel + m"
proof (induction m arbitrary: sel msk)
  case 0
  show ?case by simp
next
  case (Suc m)
  show ?case
    using Suc [of "sel @ [cands ! nat (fst (mmr_best lam sq sdd sel msk (length cands)))]"
                  "msk[nat (fst (mmr_best lam sq sdd sel msk (length cands))) := True]"]
    by (simp add: Let_def)
qed

lemma spec_greedy_bounds:
  "spec_greedy lam sq sdd n chosen picks \<Longrightarrow> \<forall>p\<in>set picks. p < n \<and> p \<notin> set chosen"
proof (induction picks arbitrary: chosen)
  case Nil
  show ?case by simp
next
  case (Cons a picks)
  from Cons.prems have "spec_greedy lam sq sdd n (chosen @ [a]) picks" by simp
  from Cons.IH [OF this] Cons.prems show ?case by simp
qed

lemma spec_mmr_score_one [simp]: "spec_mmr_score 1 sq sdd S i = sq ! i"
  by (simp add: spec_mmr_score_def)

lemma spec_greedy_lambda_one:
  assumes "spec_greedy 1 sq sdd n chosen picks"
  shows "sorted_wrt (\<ge>) (map ((!) sq) picks) \<and>
         (\<forall>i<n. i \<notin> set chosen \<longrightarrow> i \<notin> set picks \<longrightarrow> (\<forall>p\<in>set picks. sq ! i \<le> sq ! p))"
  using assms
proof (induction picks arbitrary: chosen)
  case Nil
  show ?case by simp
next
  case (Cons a picks)
  from Cons.prems have a: "a < n" "a \<notin> set chosen"
    and best: "\<forall>j<n. j \<notin> set chosen \<longrightarrow> sq ! j \<le> sq ! a"
    and rest: "spec_greedy 1 sq sdd n (chosen @ [a]) picks"
    by simp_all
  from Cons.IH [OF rest] have srt: "sorted_wrt (\<ge>) (map ((!) sq) picks)"
    and dom: "\<forall>i<n. i \<notin> set (chosen @ [a]) \<longrightarrow> i \<notin> set picks \<longrightarrow> (\<forall>p\<in>set picks. sq ! i \<le> sq ! p)"
    by simp_all
  have "\<forall>p\<in>set picks. sq ! p \<le> sq ! a"
    using spec_greedy_bounds [OF rest] best by auto
  with srt have "sorted_wrt (\<ge>) (map ((!) sq) (a # picks))" by simp
  moreover have "\<forall>i<n. i \<notin> set chosen \<longrightarrow> i \<notin> set (a # picks) \<longrightarrow>
      (\<forall>p\<in>set (a # picks). sq ! i \<le> sq ! p)"
    using best dom by auto
  ultimately show ?case by blast
qed

lemma sim_bounds:
  assumes "sumsq qv \<le> 1"
  shows "\<forall>i<length cts. \<bar>sim_q r qv cts ! i\<bar> \<le> 1"
    and "\<forall>i<length cts. \<forall>j<length cts. \<bar>sim_dd r cts ! i ! j\<bar> \<le> 1"
  using assms
  by (simp_all add: sim_q_def sim_dd_def cand_vecs_def dot_unit_bound sumsq_normalize_row)

lemma mmr_picks:
  assumes "0 \<le> lam" and "lam \<le> 1" and "sumsq qv \<le> 1" and "cands \<noteq> []"
    and "\<forall>i\<in>set cands. i < length (texts r)"
  shows "\<exists>picks. mmr r qv cands k lam = Inr (map ((!) cands) picks) \<and>
           length picks = nat (max 1 (min k (int (length cands)))) \<and>
           spec_greedy lam (sim_q r qv (map ((!) (texts r)) cands))
             (sim_dd r (map ((!) (texts r)) cands)) (length cands) [] picks"
proof -
  let ?cts = "map ((!) (texts r)) cands"
  let ?n = "length cands"
  from mapE_nth_err_cases [of "texts r" cands] assms(5)
  have cts: "mapE (nth_err (texts r)) cands = Inr ?cts" by auto
  from assms(4) have "nat (max 1 (min k (int ?n))) \<le> ?n"
    by (cases cands) auto
  then have "\<exists>picks. fst (mmr_loop lam (sim_q r qv ?cts) (sim_dd r ?cts) cands
                 (nat (max 1 (min k (int ?n)))) ([], replicate ?n False))
               = map ((!) cands) ([] @ picks) \<and>
             length picks = nat (max 1 (min k (int ?n))) \<and>
             spec_greedy lam (sim_q r qv ?cts) (sim_dd r ?cts) ?n [] picks"
    using sim_bounds [OF assms(3), of ?cts r]
    by (intro mmr_loop_greedy [OF assms(1,2)]) simp_all
  with assms(4) cts show ?thesis
    by (simp add: mmr_def Let_def)
qed

lemma l2norm_le_1: "l2norm qv \<le> 1 \<Longrightarrow> sumsq qv \<le> 1"
  by (simp add: l2norm_sumsq)

text \<open>
  C2. For a weight \<open>lam\<close> between \<open>0\<close> and \<open>1\<close>, a query row of norm at most \<open>1\<close> (as
  \<^verbatim>\<open>_encode_query\<close> produces) and a non-empty pool of chunk offsets, \<^verbatim>\<open>_mmr\<close> returns
  the chunks at the pool offsets \<open>picks\<close>, where \<open>picks\<close> has
  \<open>max 1 (min k n)\<close> members and is a run of the greedy selection of the
  specification from the empty set: each pick is an unselected candidate with the
  highest score \<open>spec_mmr_score\<close> against the picks before it. With \<open>lam = 1\<close> the
  picks are in descending order of similarity to the query, and no candidate left
  out is more similar than a pick.
\<close>

theorem mmr_is_greedy:
  assumes "0 \<le> lam" and "lam \<le> 1" and "l2norm qv \<le> 1" and "candidate_ids \<noteq> []"
    and "\<forall>i\<in>set candidate_ids. i < length (texts r)"
  shows "\<exists>picks.
           mmr r qv candidate_ids k lam = Inr (map ((!) candidate_ids) picks) \<and>
           length picks = nat (max 1 (min k (int (length candidate_ids)))) \<and>
           spec_greedy lam (sim_q r qv (map ((!) (texts r)) candidate_ids))
             (sim_dd r (map ((!) (texts r)) candidate_ids)) (length candidate_ids) [] picks \<and>
           (lam = 1 \<longrightarrow>
              sorted_wrt (\<ge>) (map ((!) (sim_q r qv (map ((!) (texts r)) candidate_ids))) picks) \<and>
              (\<forall>i<length candidate_ids. i \<notin> set picks \<longrightarrow>
                 (\<forall>p\<in>set picks. sim_q r qv (map ((!) (texts r)) candidate_ids) ! i
                                  \<le> sim_q r qv (map ((!) (texts r)) candidate_ids) ! p)))"
proof -
  from mmr_picks [OF assms(1,2) l2norm_le_1 [OF assms(3)] assms(4,5), of k]
  obtain picks where picks: "mmr r qv candidate_ids k lam = Inr (map ((!) candidate_ids) picks)"
    "length picks = nat (max 1 (min k (int (length candidate_ids))))"
    "spec_greedy lam (sim_q r qv (map ((!) (texts r)) candidate_ids))
       (sim_dd r (map ((!) (texts r)) candidate_ids)) (length candidate_ids) [] picks"
    by blast
  have "lam = 1 \<longrightarrow>
      sorted_wrt (\<ge>) (map ((!) (sim_q r qv (map ((!) (texts r)) candidate_ids))) picks) \<and>
      (\<forall>i<length candidate_ids. i \<notin> set picks \<longrightarrow>
         (\<forall>p\<in>set picks. sim_q r qv (map ((!) (texts r)) candidate_ids) ! i
                          \<le> sim_q r qv (map ((!) (texts r)) candidate_ids) ! p))"
    using spec_greedy_lambda_one [of "sim_q r qv (map ((!) (texts r)) candidate_ids)" _ _ "[]" picks]
      picks(3) by auto
  with picks show ?thesis by blast
qed

theorem mmr_is_greedy_witness:
  "(0 :: real) \<le> 1 \<and> (1 :: real) \<le> 1 \<and> l2norm [1, 0] \<le> 1 \<and> [0, 1, 2 :: nat] \<noteq> [] \<and>
   list_all (\<lambda>i. i < length (texts demo)) [0, 1, 2] \<and>
   (\<exists>picks. mmr demo [1, 0] [0, 1, 2] 2 1 = Inr (map ((!) [0, 1, 2]) picks) \<and>
      length picks = 2 \<and>
      sorted_wrt (\<ge>) (map ((!) (sim_q demo [1, 0] (map ((!) (texts demo)) [0, 1, 2]))) picks))"
proof -
  have h3: "l2norm [1, 0] \<le> 1" by (simp add: l2norm_def)
  have h4: "[0, 1, 2 :: nat] \<noteq> []" by simp
  have h5: "\<forall>i\<in>set [0, 1, 2]. i < length (texts demo)"
    by (simp add: demo_def demo_meta_def)
  from mmr_is_greedy [of 1 "[1, 0]" "[0, 1, 2]" demo 2, OF _ _ h3 h4 h5] h3 h5
  show ?thesis by (auto simp: list_all_iff)
qed

subsection \<open>The stages of a search under the contracts\<close>

lemma clamp_le: "1 \<le> l \<Longrightarrow> nat (max 1 (min a (int l))) \<le> l"
  by (auto simp: max_def min_def)

lemma clamp_min: "1 \<le> k \<Longrightarrow> min l (nat (max 1 (min k (int l)))) = min (nat k) l"
  by (cases "l = 0") (auto simp: max_def min_def)

lemma clamp_one: "k \<le> 0 \<Longrightarrow> 1 \<le> l \<Longrightarrow> min l (nat (max 1 (min k (int l)))) = 1"
  by (auto simp: max_def min_def)

lemma clamp_le_k: "nat (max 1 (min a b)) \<le> nat (max 1 a)"
  by (auto simp: max_def min_def)

lemma mapE_Inr:
  "(\<forall>x\<in>set xs. \<exists>y. f x = Inr y) \<Longrightarrow> \<exists>ys. mapE f xs = Inr ys \<and> length ys = length xs"
  by (induction xs) auto

lemma mapE_length: "mapE f xs = Inr ys \<Longrightarrow> length ys = length xs"
  by (induction xs arbitrary: ys) (auto split: sum.splits)

lemma py_take_Nil [simp]: "py_take n [] = []"
  by (simp add: py_take_def)

lemma set_py_take: "set (py_take n xs) \<subseteq> set xs"
  by (auto simp: py_take_def dest: in_set_takeD)

lemma set_argsort_desc [simp]: "set (argsort_desc a) = {0..<length a}"
  by (simp add: argsort_desc_def)

lemma length_argsort_desc [simp]: "length (argsort_desc a) = length a"
  by (simp add: argsort_desc_def)

lemma title_sim_ok:
  assumes "case titles_vecs r of None \<Rightarrow> True
           | Some tv \<Rightarrow> length tv = length (titles_list r) \<and> - int (length tv) \<le> title_k r"
  shows "\<exists>tmap. title_sim r q = Inr tmap"
proof (cases "titles_vecs r")
  case None
  then show ?thesis by (simp add: title_sim_def)
next
  case (Some tv)
  with assms have len: "length tv = length (titles_list r)" and tk: "- int (length tv) \<le> title_k r"
    by simp_all
  let ?sims = "map (\<lambda>row. dot row q) tv"
  let ?top = "py_take (title_k r) (argsort_desc ?sims)"
  have "\<forall>p\<in>set (zip [0..<length ?top] ?top).
          \<exists>y. (\<lambda>(j, i). bindE (nth_err (titles_list r) i)
                  (\<lambda>t. Inr (t, minmax (map ((!) ?sims) ?top) ! j))) p = Inr y"
  proof
    fix p assume p: "p \<in> set (zip [0..<length ?top] ?top)"
    obtain j i where ji: "p = (j, i)" by (cases p)
    from p have "snd p \<in> set ?top" unfolding ji by (auto dest: set_zip_rightD)
    with set_py_take [of "title_k r" "argsort_desc ?sims"] have "snd p < length (titles_list r)"
      by (auto simp: len)
    then show "\<exists>y. (\<lambda>(j, i). bindE (nth_err (titles_list r) i)
                  (\<lambda>t. Inr (t, minmax (map ((!) ?sims) ?top) ! j))) p = Inr y"
      unfolding ji by (simp add: nth_err_def)
  qed
  from mapE_Inr [OF this] have a: "\<exists>tmap. mapE (\<lambda>(j, i). bindE (nth_err (titles_list r) i)
                  (\<lambda>t. Inr (t, minmax (map ((!) ?sims) ?top) ! j)))
                  (zip [0..<length ?top] ?top) = Inr tmap"
    by blast
  have "\<forall>i\<in>set [0..<length (titles_list r)].
          \<exists>y. bindE (nth_err (minmax ?sims) i) (\<lambda>s. Inr (titles_list r ! i, s)) = Inr y"
    by (simp add: nth_err_def length_minmax len)
  from mapE_Inr [OF this] have b: "\<exists>tmap. mapE (\<lambda>i. bindE (nth_err (minmax ?sims) i)
                  (\<lambda>s. Inr (titles_list r ! i, s))) [0..<length (titles_list r)] = Inr tmap"
    by blast
  from a b tk Some show ?thesis
    by (auto simp: title_sim_def Let_def)
qed

lemma title_boosts_ok:
  assumes "case titles_vecs r of None \<Rightarrow> True
           | Some tv \<Rightarrow> length tv = length (titles_list r) \<and> - int (length tv) \<le> title_k r"
    and "\<forall>i\<in>set cands. i < length (meta r)"
  shows "\<exists>tb. title_boosts r q cands = Inr tb \<and> length tb = length cands"
proof -
  from title_sim_ok [OF assms(1)] obtain tmap where tm: "title_sim r q = Inr tmap" by blast
  have "\<forall>ci\<in>set cands. \<exists>y. bindE (nth_err (meta r) ci) (\<lambda>m.
                    let t = title_of m in
                    Inr (case (if t \<noteq> [] then dict_get tmap t else None) of
                           Some s \<Rightarrow> s * title_boost r
                         | None \<Rightarrow> 0)) = Inr y"
    using assms(2) by (simp add: nth_err_def Let_def)
  from mapE_Inr [OF this] tm show ?thesis
    by (auto simp: title_boosts_def)
qed

lemma hybrid_rank_ok:
  assumes "contracts r query"
  shows "\<exists>ranked. hybrid_rank r query = Inr ranked \<and> length ranked = length (cand_list r query) \<and>
           set (map fst ranked) \<subseteq> set (cand_list r query)"
proof -
  from assms have t: "case titles_vecs r of None \<Rightarrow> True
           | Some tv \<Rightarrow> length tv = length (titles_list r) \<and> - int (length tv) \<le> title_k r"
    and m: "\<forall>i\<in>set (cand_list r query). i < length (meta r)"
    by (simp_all add: contracts_def)
  from title_boosts_ok [OF t m, of "encode_query r query"] obtain tb where
    tb: "title_boosts r (encode_query r query) (cand_list r query) = Inr tb"
      "length tb = length (cand_list r query)"
    by blast
  show ?thesis
  proof (cases "meta r = [] \<or> cand_list r query = []")
    case True
    with m have "cand_list r query = []" by (cases "cand_list r query") auto
    then show ?thesis by (simp add: hybrid_rank_def)
  next
    case False
    with tb show ?thesis
      by (auto simp: hybrid_rank_def Let_def length_v_norm length_b_norm length_fused
            dest!: set_zip_leftD)
  qed
qed


lemma rerank_ok:
  assumes "case reranker r of None \<Rightarrow> True
           | Some predict \<Rightarrow> \<forall>pairs scores. predict pairs = Inr scores \<longrightarrow>
                                length scores = length pairs"
    and "\<forall>i\<in>set cands. i < length (texts r)"
  shows "\<exists>out. rerank r query cands (int (length cands)) = Inr out \<and>
           length out = length cands \<and> set out \<subseteq> set cands"
proof (cases "reranker r")
  case None
  then show ?thesis by (simp add: rerank_def py_take_all)
next
  case (Some predict)
  show ?thesis
  proof (cases "cands = []")
    case True
    with Some show ?thesis by (simp add: rerank_def py_take_def)
  next
    case False
    from mapE_nth_err_cases [of "texts r" cands] assms(2)
    have cts: "mapE (nth_err (texts r)) cands = Inr (map ((!) (texts r)) cands)" by auto
    let ?pairs = "map (Pair query) (map ((!) (texts r)) cands)"
    show ?thesis
    proof (cases "predict ?pairs")
      case (Inl e)
      with Some False cts show ?thesis by (simp add: rerank_def mapE_pairs py_take_all)
    next
      case (Inr scores)
      with assms(1) Some have len: "length scores = length cands" by fastforce
      then have take: "py_take (int (length cands)) (argsort_desc scores) = argsort_desc scores"
        by (simp add: py_take_def)
      from mapE_nth_err_cases [of cands "argsort_desc scores"] len
      have "mapE (nth_err cands) (argsort_desc scores) = Inr (map ((!) cands) (argsort_desc scores))"
        by auto
      with Some False cts Inr take len show ?thesis
        by (auto simp: rerank_def mapE_pairs)
    qed
  qed
qed

lemma mmr_length_le:
  assumes "mmr r qv cands k lam = Inr ids"
  shows "length ids \<le> nat (max 1 (min k (int (length cands)))) \<and> (cands = [] \<longrightarrow> ids = [])"
proof (cases "cands = []")
  case True
  with assms show ?thesis by (simp add: mmr_def)
next
  case False
  with assms obtain cts where
    "ids = fst (mmr_loop lam (sim_q r qv cts) (sim_dd r cts) cands
                  (nat (max 1 (min k (int (length cands)))))
                  ([], replicate (length cands) False))"
    by (cases "mapE (nth_err (texts r)) cands") (auto simp: mmr_def Let_def)
  with mmr_loop_length [of lam "sim_q r qv cts" "sim_dd r cts" cands _ "[]"] False
  show ?thesis by simp
qed

lemma search_Inr_length_le:
  assumes "search r query k = Inr out"
  shows "length out \<le> nat (max 1 (case k of Some k \<Rightarrow> k | None \<Rightarrow> top_k r))"
proof -
  let ?kf = "case k of Some k \<Rightarrow> k | None \<Rightarrow> top_k r"
  from assms obtain ranked where ranked: "hybrid_rank r query = Inr ranked"
    by (cases "hybrid_rank r query") (simp_all add: search_def)
  show ?thesis
  proof (cases "ranked = []")
    case True
    with assms ranked show ?thesis by (simp add: search_def)
  next
    case False
    let ?pool = "map fst (py_take (max (mmr_pool r) (rerank_from r)) ranked)"
    let ?rr = "if reranker r \<noteq> None \<and> ?pool \<noteq> []
               then rerank r query ?pool (int (length ?pool)) else Inr ?pool"
    from assms ranked False obtain pool' where pool': "?rr = Inr pool'"
      by (cases ?rr) (simp_all add: search_def Let_def)
    from assms ranked False pool' obtain final_ids where
      ids: "mmr r (encode_query r query) pool' ?kf (mmr_lambda r) = Inr final_ids"
      by (cases "mmr r (encode_query r query) pool' ?kf (mmr_lambda r)")
         (simp_all add: search_def Let_def)
    from assms ranked False pool' ids have
      "mapE (\<lambda>idx. bindE (nth_err (meta r) idx) (\<lambda>m. Inr (build_hit ranked m idx))) final_ids
         = Inr out"
      by (simp add: search_def Let_def)
    then have "length out = length final_ids" by (rule mapE_length)
    with mmr_length_le [OF ids] clamp_le_k [of ?kf "int (length pool')"] show ?thesis
      by simp
  qed
qed

lemma search_ok:
  assumes "contracts r query"
  shows "\<exists>ranked out. hybrid_rank r query = Inr ranked \<and>
           length ranked = length (cand_list r query) \<and>
           search r query k = Inr out \<and>
           length out =
             min (length (py_take (max (mmr_pool r) (rerank_from r)) ranked))
               (nat (max 1 (min (case k of Some k \<Rightarrow> k | None \<Rightarrow> top_k r)
                  (int (length (py_take (max (mmr_pool r) (rerank_from r)) ranked))))))"
proof -
  let ?kf = "case k of Some k \<Rightarrow> k | None \<Rightarrow> top_k r"
  from hybrid_rank_ok [OF assms] obtain ranked where
    ranked: "hybrid_rank r query = Inr ranked" "length ranked = length (cand_list r query)"
      "set (map fst ranked) \<subseteq> set (cand_list r query)"
    by blast
  let ?cut = "py_take (max (mmr_pool r) (rerank_from r)) ranked"
  let ?pool = "map fst ?cut"
  from assms have lam: "0 \<le> mmr_lambda r" "mmr_lambda r \<le> 1"
    and al: "\<forall>i\<in>set (cand_list r query). i < length (meta r) \<and> i < length (texts r)"
    and rk: "case reranker r of None \<Rightarrow> True
           | Some predict \<Rightarrow> \<forall>pairs scores. predict pairs = Inr scores \<longrightarrow>
                                length scores = length pairs"
    by (simp_all add: contracts_def)
  have pool_sub: "set ?pool \<subseteq> set (cand_list r query)"
    using set_py_take [of "max (mmr_pool r) (rerank_from r)" ranked] ranked(3) by auto
  show ?thesis
  proof (cases "?cut = []")
    case True
    with ranked have "search r query k = Inr []"
      by (simp add: search_def Let_def mmr_def)
    with ranked True show ?thesis by simp
  next
    case False
    then have ne: "ranked \<noteq> []" "?pool \<noteq> []" by auto
    let ?rr = "if reranker r \<noteq> None \<and> ?pool \<noteq> []
               then rerank r query ?pool (int (length ?pool)) else Inr ?pool"
    have "\<exists>pool'. ?rr = Inr pool' \<and> length pool' = length ?pool \<and> set pool' \<subseteq> set ?pool"
      using rerank_ok [OF rk, of ?pool query] pool_sub al by auto
    then obtain pool' where pool': "?rr = Inr pool'" "length pool' = length ?pool"
      "set pool' \<subseteq> set ?pool"
      by blast
    from pool'(2) ne have ne': "pool' \<noteq> []" by auto
    have tx: "\<forall>i\<in>set pool'. i < length (texts r)" using pool'(3) pool_sub al by auto
    from mmr_picks [OF lam _ ne' tx, of "encode_query r query" ?kf]
    obtain picks where picks:
      "mmr r (encode_query r query) pool' ?kf (mmr_lambda r) = Inr (map ((!) pool') picks)"
      "length picks = nat (max 1 (min ?kf (int (length pool'))))"
      "spec_greedy (mmr_lambda r) (sim_q r (encode_query r query) (map ((!) (texts r)) pool'))
         (sim_dd r (map ((!) (texts r)) pool')) (length pool') [] picks"
      by (auto simp: encode_query_def sumsq_normalize_row)
    from spec_greedy_bounds [OF picks(3)] have "set (map ((!) pool') picks) \<subseteq> set pool'"
      by auto
    with pool'(3) pool_sub al have "\<forall>idx\<in>set (map ((!) pool') picks). idx < length (meta r)"
      by blast
    then have
      "\<forall>idx\<in>set (map ((!) pool') picks).
         \<exists>y. bindE (nth_err (meta r) idx) (\<lambda>m. Inr (build_hit ranked m idx)) = Inr y"
      by (simp add: nth_err_def)
    from mapE_Inr [OF this] obtain out where out:
      "mapE (\<lambda>idx. bindE (nth_err (meta r) idx) (\<lambda>m. Inr (build_hit ranked m idx)))
         (map ((!) pool') picks) = Inr out"
      "length out = length picks"
      by auto
    from ranked(1) ne pool'(1) picks(1) out(1) have s: "search r query k = Inr out"
      by (simp add: search_def Let_def)
    from out(2) picks(2) pool'(2)
    have lo: "length out = nat (max 1 (min ?kf (int (length ?cut))))" by simp
    from False have "1 \<le> length ?cut" by (cases ?cut) auto
    then have "nat (max 1 (min ?kf (int (length ?cut)))) \<le> length ?cut" by (rule clamp_le)
    with lo have "length out = min (length ?cut) (nat (max 1 (min ?kf (int (length ?cut)))))"
      by (simp only: min_absorb2)
    with ranked(1,2) s show ?thesis by blast
  qed
qed


lemma search_ok_Some:
  assumes "contracts r query"
  shows "\<exists>ranked out. hybrid_rank r query = Inr ranked \<and>
           length ranked = length (cand_list r query) \<and>
           search r query (Some k) = Inr out \<and>
           length out =
             min (length (py_take (max (mmr_pool r) (rerank_from r)) ranked))
               (nat (max 1 (min k
                  (int (length (py_take (max (mmr_pool r) (rerank_from r)) ranked))))))"
  using search_ok [OF assms, of "Some k"] by simp

lemma length_py_take_cong:
  "length xs = length ys \<Longrightarrow> length (py_take n xs) = length (py_take n ys)"
  by (simp add: py_take_def)

subsection \<open>The number of results\<close>

lemma demo_contracts: "contracts demo ''beta''"
  by (simp add: contracts_def demo_cand_list) (simp add: demo_def demo_meta_def)

lemma demo_capped_cand_list: "cand_list demo_capped ''beta'' = [0, 1, 2]"
  by (simp add: demo_capped_def demo_simps)

lemma demo_capped_contracts: "contracts demo_capped ''beta''"
  by (simp add: contracts_def demo_capped_cand_list) (simp add: demo_capped_def demo_def demo_meta_def)

text \<open>
  C10. Under the contracts, when \<open>top_k\<close> is zero or negative and the working pool
  (the ranking cut to \<open>max mmr_pool rerank_from\<close> rows) is not empty, \<^verbatim>\<open>search\<close>
  returns exactly one result: \<^verbatim>\<open>_mmr\<close> clamps the number of rounds to at least one.
\<close>

theorem nonpositive_top_k_returns_one:
  assumes "k \<le> 0" and "contracts r query"
    and "py_take (max (mmr_pool r) (rerank_from r)) (cand_list r query) \<noteq> []"
  shows "\<exists>ranked h. hybrid_rank r query = Inr ranked \<and>
           py_take (max (mmr_pool r) (rerank_from r)) ranked \<noteq> [] \<and>
           search r query (Some k) = Inr [h]"
proof -
  from search_ok_Some [OF assms(2), of k] obtain ranked out where
    ranked: "hybrid_rank r query = Inr ranked" "length ranked = length (cand_list r query)"
    and out: "search r query (Some k) = Inr out"
    and len: "length out =
      min (length (py_take (max (mmr_pool r) (rerank_from r)) ranked))
        (nat (max 1 (min k (int (length (py_take (max (mmr_pool r) (rerank_from r)) ranked))))))"
    by blast
  from length_py_take_cong [OF ranked(2), of "max (mmr_pool r) (rerank_from r)"] assms(3)
  have ne: "py_take (max (mmr_pool r) (rerank_from r)) ranked \<noteq> []" by auto
  then have "1 \<le> length (py_take (max (mmr_pool r) (rerank_from r)) ranked)"
    by (cases "py_take (max (mmr_pool r) (rerank_from r)) ranked") auto
  with len assms(1) have "length out = 1" by (simp only: clamp_one)
  then obtain h where "out = [h]" by (cases out) auto
  with ranked(1) ne out show ?thesis by blast
qed

theorem nonpositive_top_k_returns_one_witness:
  "(0 :: int) \<le> 0 \<and> contracts demo ''beta'' \<and>
   py_take (max (mmr_pool demo) (rerank_from demo)) (cand_list demo ''beta'') \<noteq> [] \<and>
   (\<exists>h. search demo ''beta'' (Some 0) = Inr [h])"
proof -
  have h3: "py_take (max (mmr_pool demo) (rerank_from demo)) (cand_list demo ''beta'') \<noteq> []"
    by (simp add: demo_cand_list py_take_def) (simp add: demo_def)
  from nonpositive_top_k_returns_one [OF _ demo_contracts h3, of 0] demo_contracts h3
  show ?thesis by auto
qed

text \<open>
  C1, as the code has it. For \<open>top_k\<close> at least one, a search that returns never
  returns more than \<open>top_k\<close> results; under the contracts it returns, and the number
  of results is the smaller of \<open>top_k\<close> and the size of the working pool, the
  candidate union cut to \<open>max mmr_pool rerank_from\<close> members. So it is \<open>top_k\<close> when
  the union has at least \<open>top_k\<close> members and \<open>top_k\<close> does not exceed that cut.
\<close>

theorem search_length:
  assumes "1 \<le> k"
  shows "(\<forall>out. search r query (Some k) = Inr out \<longrightarrow> int (length out) \<le> k) \<and>
         (contracts r query \<longrightarrow>
            (\<exists>out. search r query (Some k) = Inr out \<and>
               length out = min (nat k)
                 (length (py_take (max (mmr_pool r) (rerank_from r)) (cand_list r query))) \<and>
               (k \<le> int (length (cand_list r query)) \<and> k \<le> max (mmr_pool r) (rerank_from r) \<longrightarrow>
                  length out = nat k)))"
proof -
  have le: "int (length out) \<le> k" if "search r query (Some k) = Inr out" for out
    using search_Inr_length_le [OF that] assms by simp
  have ex: "\<exists>out. search r query (Some k) = Inr out \<and>
               length out = min (nat k)
                 (length (py_take (max (mmr_pool r) (rerank_from r)) (cand_list r query))) \<and>
               (k \<le> int (length (cand_list r query)) \<and> k \<le> max (mmr_pool r) (rerank_from r) \<longrightarrow>
                  length out = nat k)"
    if c: "contracts r query"
  proof -
    let ?cap = "max (mmr_pool r) (rerank_from r)"
    from search_ok_Some [OF c, of k] obtain ranked out where
      hr: "hybrid_rank r query = Inr ranked"
      and ranked: "length ranked = length (cand_list r query)"
      and out: "search r query (Some k) = Inr out"
      and len: "length out =
        min (length (py_take ?cap ranked))
          (nat (max 1 (min k (int (length (py_take ?cap ranked))))))"
      by blast
    have eq: "length (py_take ?cap ranked) = length (py_take ?cap (cand_list r query))"
      by (rule length_py_take_cong [OF ranked])
    have l: "length out = min (nat k) (length (py_take ?cap (cand_list r query)))"
      using len clamp_min [OF assms, of "length (py_take ?cap ranked)"] unfolding eq by simp
    have "length out = nat k"
      if "k \<le> int (length (cand_list r query))" and "k \<le> ?cap"
    proof -
      from that have "nat k \<le> length (cand_list r query)" "nat k \<le> nat ?cap"
        by linarith+
      moreover from that assms have "0 \<le> ?cap" by linarith
      ultimately have "nat k \<le> length (py_take ?cap (cand_list r query))"
        by (simp add: py_take_def)
      with l show ?thesis by simp
    qed
    with out l show ?thesis by blast
  qed
  from le ex show ?thesis by blast
qed

theorem search_length_witness:
  "(1 :: int) \<le> 2 \<and> contracts demo ''beta'' \<and>
   (\<exists>out. search demo ''beta'' (Some 2) = Inr out \<and> length out = 2)"
proof -
  have "(2 :: int) \<le> int (length (cand_list demo ''beta'')) \<and>
        2 \<le> max (mmr_pool demo) (rerank_from demo)"
    by (simp add: demo_cand_list) (simp add: demo_def)
  with search_length [of 2 demo "''beta''"] demo_contracts show ?thesis by auto
qed


text \<open>
  C1, as stated, fails twice: with \<open>top_k = 0\<close> the search on the three-chunk
  knowledge base returns one result, more than \<open>top_k\<close>; and with a working pool of
  two, a union of three candidates and \<open>top_k = 3\<close> it returns two results.
\<close>

theorem search_length_counterexample:
  "map_sum id length (search demo ''beta'' (Some 0)) = Inr 1 \<and>
   length (cand_list demo_capped ''beta'') = 3 \<and>
   map_sum id length (search demo_capped ''beta'' (Some 3)) = Inr 2"
proof -
  from search_ok_Some [OF demo_contracts, of 0] obtain ranked out where
    a: "hybrid_rank demo ''beta'' = Inr ranked" "length ranked = length (cand_list demo ''beta'')"
      "search demo ''beta'' (Some 0) = Inr out"
      "length out = min (length (py_take (max (mmr_pool demo) (rerank_from demo)) ranked))
         (nat (max 1 (min 0 (int (length (py_take (max (mmr_pool demo) (rerank_from demo)) ranked))))))"
    by blast
  have "max (mmr_pool demo) (rerank_from demo) = 20" by (simp add: demo_def)
  with a(2,4) have "length out = 1" by (simp add: demo_cand_list py_take_def)
  with a(3) have one: "map_sum id length (search demo ''beta'' (Some 0)) = Inr 1" by simp
  from search_ok_Some [OF demo_capped_contracts, of 3] obtain ranked' out' where
    b: "hybrid_rank demo_capped ''beta'' = Inr ranked'"
      "length ranked' = length (cand_list demo_capped ''beta'')"
      "search demo_capped ''beta'' (Some 3) = Inr out'"
      "length out' =
         min (length (py_take (max (mmr_pool demo_capped) (rerank_from demo_capped)) ranked'))
         (nat (max 1 (min 3 (int (length (py_take
            (max (mmr_pool demo_capped) (rerank_from demo_capped)) ranked'))))))"
    by blast
  have "max (mmr_pool demo_capped) (rerank_from demo_capped) = 2"
    by (simp add: demo_capped_def)
  with b(2,4) have "length out' = 2" by (simp add: demo_capped_cand_list py_take_def)
  with b(3) have two: "map_sum id length (search demo_capped ''beta'' (Some 3)) = Inr 2" by simp
  from one two show ?thesis by (simp add: demo_capped_cand_list)
qed

subsection \<open>Scaling the dense scores\<close>












subsection \<open>A reranker that always raises\<close>










end
